theory Spec2Isabelle
  imports Complex_Main "HOL-Library.Log_Nat"
begin

section \<open>Context Switch Guardian: the classifier and the in-memory state of app.py\<close>

text \<open>
  The model follows \<^verbatim>\<open>app.py\<close> function by function. A transcript is a Python
  \<^verbatim>\<open>str\<close>; it is modelled as a \<^typ>\<open>string\<close> whose characters are the code points
  below 256 (Latin-1). All trigger phrases and keywords of the program are ASCII.
  The two module-level globals, the list \<^verbatim>\<open>interruptions\<close> and the dictionary
  \<^verbatim>\<open>user_state\<close>, are the fields of one state record that every function takes and
  returns. The clock reading \<^verbatim>\<open>datetime.now().isoformat()\<close> is an input named
  \<open>now\<close>. Printing and the Slack notification (\<^verbatim>\<open>send_slack_notification\<close>, which
  reads the environment, posts over the network and catches every exception) touch neither
  global and are left out of the state.
\<close>

subsection \<open>Strings\<close>

text \<open>
  \<^verbatim>\<open>str.lower()\<close> on code points below 256: the ASCII capitals and the Latin-1
  capitals 192..214 and 216..222 move up by 32, every other character stays.
\<close>

definition lower_char :: "char \<Rightarrow> char" where
  "lower_char c =
     (let n = (of_char c :: nat) in
      if (65 \<le> n \<and> n \<le> 90) \<or> (192 \<le> n \<and> n \<le> 214) \<or> (216 \<le> n \<and> n \<le> 222)
      then char_of (n + 32) else c)"

definition lower :: "string \<Rightarrow> string" where
  "lower s = map lower_char s"

text \<open>\<^verbatim>\<open>str.isspace()\<close> for one character, on code points below 256.\<close>

definition isspace_char :: "char \<Rightarrow> bool" where
  "isspace_char c =
     (let n = (of_char c :: nat) in
      (9 \<le> n \<and> n \<le> 13) \<or> (28 \<le> n \<and> n \<le> 32) \<or> n = 133 \<or> n = 160)"

text \<open>\<^verbatim>\<open>text.startswith(needle)\<close> and the substring test \<^verbatim>\<open>needle in text\<close>.\<close>

fun starts_with :: "string \<Rightarrow> string \<Rightarrow> bool" where
  "starts_with [] ys = True"
| "starts_with (x # xs) [] = False"
| "starts_with (x # xs) (y # ys) = (x = y \<and> starts_with xs ys)"

fun str_contains :: "string \<Rightarrow> string \<Rightarrow> bool" where
  "str_contains needle [] = (needle = [])"
| "str_contains needle (y # ys) = (starts_with needle (y # ys) \<or> str_contains needle ys)"

text \<open>Python's \<^verbatim>\<open>any\<close> over a generator: true at the first element that satisfies.\<close>

fun any_of :: "('a \<Rightarrow> bool) \<Rightarrow> 'a list \<Rightarrow> bool" where
  "any_of P [] = False"
| "any_of P (x # xs) = (P x \<or> any_of P xs)"

subsection \<open>The classifier\<close>

definition triggers :: "string list" where
  "triggers = [''focus mode'', ''entering focus mode'', ''deep work'', ''do not disturb'', ''dnd'']"

definition detect_focus_mode :: "string \<Rightarrow> bool" where
  "detect_focus_mode transcript =
     (let text = lower transcript in any_of (\<lambda>trigger. str_contains trigger text) triggers)"

text \<open>
  The dictionary \<^verbatim>\<open>patterns\<close> in its insertion order, which is the order in which
  \<^verbatim>\<open>patterns.items()\<close> yields it.
\<close>

definition patterns :: "(string \<times> string list) list" where
  "patterns =
     [(''casual_chat'', [''lunch'', ''coffee'', ''how are you'', ''hey'', ''what's up'']),
      (''work_request'', [''can you'', ''quick question'', ''need help'', ''could you'']),
      (''meeting'', [''meeting'', ''call'', ''zoom'', ''schedule'', ''calendar'']),
      (''urgent'', [''urgent'', ''asap'', ''emergency'', ''now'', ''immediately''])]"

text \<open>The \<^verbatim>\<open>for int_type, keywords in patterns.items()\<close> loop with its early return.\<close>

fun scan_patterns :: "string \<Rightarrow> (string \<times> string list) list \<Rightarrow> string option" where
  "scan_patterns text [] = None"
| "scan_patterns text ((int_type, keywords) # rest) =
     (if any_of (\<lambda>keyword. str_contains keyword text) keywords then Some int_type
      else scan_patterns text rest)"

text \<open>
  \<^verbatim>\<open>detect_interruption\<close> returns the dictionary \<^verbatim>\<open>{'type': int_type}\<close> or
  \<^verbatim>\<open>None\<close>; the one-key dictionary is modelled by its value.
\<close>

definition detect_interruption :: "string \<Rightarrow> string option" where
  "detect_interruption transcript = scan_patterns (lower transcript) patterns"

subsection \<open>The state and the operations on it\<close>

record interruption_record =
  r_transcript :: string
  r_timestamp :: string
  r_type :: string
  time_lost_minutes :: int

record app_state =
  interruptions :: "interruption_record list"
  focus_mode_active :: bool
  focus_start_time :: "string option"

definition initial_state :: app_state where
  "initial_state = \<lparr>interruptions = [], focus_mode_active = False, focus_start_time = None\<rparr>"

definition save_interruption :: "string \<Rightarrow> string \<Rightarrow> string \<Rightarrow> app_state \<Rightarrow> app_state" where
  "save_interruption transcript timestamp int_type s =
     s\<lparr>interruptions := interruptions s @
         [\<lparr>r_transcript = transcript, r_timestamp = timestamp, r_type = int_type,
           time_lost_minutes = 23\<rparr>]\<rparr>"

definition activate_focus_mode :: "string \<Rightarrow> app_state \<Rightarrow> app_state" where
  "activate_focus_mode now s = s\<lparr>focus_mode_active := True, focus_start_time := Some now\<rparr>"

definition process_conversation ::
  "string \<Rightarrow> string \<Rightarrow> string \<Rightarrow> app_state \<Rightarrow> string \<times> app_state" where
  "process_conversation transcript timestamp now s =
     (if detect_focus_mode transcript then (''focus_mode_activated'', activate_focus_mode now s)
      else case detect_interruption transcript of
             Some int_type \<Rightarrow>
               (''interruption_'' @ int_type, save_interruption transcript timestamp int_type s)
           | None \<Rightarrow> (''no_action_needed'', s))"

text \<open>
  The core operations in sequence: processing one event (with the clock reading its
  activation branch would take) and generating the report. \<^verbatim>\<open>generate_daily_report\<close>
  only reads \<^verbatim>\<open>interruptions\<close>, so as a step on the state it is the identity.
\<close>

datatype core_op = ProcessEvent string string string | GenerateReport

fun apply_op :: "core_op \<Rightarrow> app_state \<Rightarrow> app_state" where
  "apply_op (ProcessEvent transcript timestamp now) s =
     snd (process_conversation transcript timestamp now s)"
| "apply_op GenerateReport s = s"

fun run_ops :: "core_op list \<Rightarrow> app_state \<Rightarrow> app_state" where
  "run_ops [] s = s"
| "run_ops (operation # rest) s = run_ops rest (apply_op operation s)"

text \<open>An operation appends a record exactly when it is an event classified as an interruption.\<close>

fun appends_record :: "core_op \<Rightarrow> bool" where
  "appends_record (ProcessEvent transcript timestamp now) =
     (\<not> detect_focus_mode transcript \<and> detect_interruption transcript \<noteq> None)"
| "appends_record GenerateReport = False"

subsection \<open>Python numbers\<close>

text \<open>
  The report mixes Python \<^verbatim>\<open>int\<close> and \<^verbatim>\<open>float\<close> values, and \<^verbatim>\<open>min\<close>,
  \<^verbatim>\<open>max\<close> and \<^verbatim>\<open>round\<close> keep the type of the argument they return, so a number
  carries its type. A float is an IEEE 754 double, modelled by the rational number it
  holds exactly. The exponent range is not modelled (no overflow, no subnormal numbers):
  a list length is below \<open>2^63\<close>, and every nonzero value the report computes from one has a
  magnitude between \<open>2^-4\<close> and \<open>2^63\<close>. Signed zero, infinities and NaN do not arise.
\<close>

datatype pynum = PyInt int | PyFloat rat

fun py_value :: "pynum \<Rightarrow> rat" where
  "py_value (PyInt i) = of_int i"
| "py_value (PyFloat d) = d"

text \<open>Rounding to the nearest integer, ties to the even one.\<close>

definition round_half_even :: "rat \<Rightarrow> int" where
  "round_half_even x =
     (let f = \<lfloor>x\<rfloor>; r = x - of_int f in
      if r < 1 / 2 then f else if 1 / 2 < r then f + 1 else if even f then f else f + 1)"

text \<open>The binary exponent \<open>e\<close> of a positive number: \<open>2^e \<le> x < 2^(e+1)\<close>.\<close>

definition binexp :: "rat \<Rightarrow> int" where
  "binexp x = (if 1 \<le> x then bitlen \<lfloor>x\<rfloor> - 1 else - bitlen (\<lceil>1 / x\<rceil> - 1))"

text \<open>
  The double nearest to an exact value, ties to even: 53 significant bits, so the
  spacing of doubles around \<open>x\<close> is \<open>2^(e-52)\<close>. Every float operation of the program
  returns the exact result rounded this way.
\<close>

definition round_to_double :: "rat \<Rightarrow> rat" where
  "round_to_double x =
     (if x = 0 then 0
      else let u = 2 powi (binexp \<bar>x\<bar> - 52) in of_int (round_half_even (x / u)) * u)"

text \<open>\<^verbatim>\<open>float(v)\<close>, the conversion an \<^verbatim>\<open>int\<close> operand undergoes next to a float.\<close>

definition py_float :: "pynum \<Rightarrow> rat" where
  "py_float v = (case v of PyInt i \<Rightarrow> round_to_double (of_int i) | PyFloat d \<Rightarrow> d)"

text \<open>
  \<^verbatim>\<open>a / b\<close> on two \<^verbatim>\<open>int\<close>s: true division, correctly rounded. The program divides
  by the literals 60 and 3 only, so \<^verbatim>\<open>ZeroDivisionError\<close> has no branch here.
\<close>

definition int_truediv :: "int \<Rightarrow> int \<Rightarrow> pynum" where
  "int_truediv a b = PyFloat (round_to_double (of_int a / of_int b))"

definition py_sub :: "pynum \<Rightarrow> pynum \<Rightarrow> pynum" where
  "py_sub a b =
     (case (a, b) of
        (PyInt i, PyInt j) \<Rightarrow> PyInt (i - j)
      | _ \<Rightarrow> PyFloat (round_to_double (py_float a - py_float b)))"

text \<open>
  \<^verbatim>\<open>min(a, b)\<close> and \<^verbatim>\<open>max(a, b)\<close> keep the first argument unless the second is
  strictly smaller (larger); \<^verbatim>\<open>int\<close> and \<^verbatim>\<open>float\<close> compare by exact value.
\<close>

definition py_min :: "pynum \<Rightarrow> pynum \<Rightarrow> pynum" where
  "py_min a b = (if py_value b < py_value a then b else a)"

definition py_max :: "pynum \<Rightarrow> pynum \<Rightarrow> pynum" where
  "py_max a b = (if py_value a < py_value b then b else a)"

text \<open>
  \<^verbatim>\<open>round(v, 1)\<close>: an \<^verbatim>\<open>int\<close> is returned as it is; a float is rounded, from the exact
  value it holds, to the nearest multiple of one tenth (ties to even), and the result is
  the double nearest to that decimal.
\<close>

definition py_round1 :: "pynum \<Rightarrow> pynum" where
  "py_round1 v =
     (case v of
        PyInt i \<Rightarrow> PyInt i
      | PyFloat d \<Rightarrow> PyFloat (round_to_double (of_int (round_half_even (d * 10)) / 10)))"

subsection \<open>The daily report\<close>

record daily_report =
  total_interruptions :: int
  hours_lost :: pynum
  focus_score :: pynum
  interruptions_by_type :: "(string \<times> int) list"
  tip :: string

text \<open>
  The dictionary \<^verbatim>\<open>by_type\<close> as an association list in insertion order:
  \<^verbatim>\<open>by_type.get(key, dflt)\<close> and \<^verbatim>\<open>by_type[key] = v\<close>, which overwrites in place
  or appends a new key at the end.
\<close>

fun dict_get :: "(string \<times> int) list \<Rightarrow> string \<Rightarrow> int \<Rightarrow> int" where
  "dict_get [] key dflt = dflt"
| "dict_get ((k, v) # rest) key dflt = (if k = key then v else dict_get rest key dflt)"

fun dict_set :: "(string \<times> int) list \<Rightarrow> string \<Rightarrow> int \<Rightarrow> (string \<times> int) list" where
  "dict_set [] key w = [(key, w)]"
| "dict_set ((k, v) # rest) key w =
     (if k = key then (k, w) # rest else (k, v) # dict_set rest key w)"

text \<open>The \<^verbatim>\<open>for interruption in interruptions\<close> loop.\<close>

fun count_by_type ::
  "(string \<times> int) list \<Rightarrow> interruption_record list \<Rightarrow> (string \<times> int) list" where
  "count_by_type by_type [] = by_type"
| "count_by_type by_type (interruption # rest) =
     (let int_type = r_type interruption
      in count_by_type (dict_set by_type int_type (dict_get by_type int_type 0 + 1)) rest)"

definition get_tip :: "int \<Rightarrow> string" where
  "get_tip n =
     (if n > 15 then ''High interruption day! Try blocking focus time tomorrow.''
      else if n < 5 then ''Great focus day! Keep it up.''
      else ''Moderate interruptions. Use focus mode for deep work.'')"

definition generate_daily_report :: "app_state \<Rightarrow> daily_report" where
  "generate_daily_report s =
     (let n = int (length (interruptions s)) in
      \<lparr>total_interruptions = n,
       hours_lost = py_round1 (int_truediv (n * 23) 60),
       focus_score =
         py_round1 (py_max (PyInt 1) (py_min (PyInt 10) (py_sub (PyInt 10) (int_truediv n 3)))),
       interruptions_by_type = count_by_type [] (interruptions s),
       tip = get_tip n\<rparr>)"

subsection \<open>The specification's wording, for comparison with the code\<close>

text \<open>
  The priority order and the keyword sets as the specification lists them, and a
  category matching a lowercased transcript when one of its keywords is a substring.
\<close>

definition spec_priority_order :: "string list" where
  "spec_priority_order = [''casual_chat'', ''work_request'', ''meeting'', ''urgent'']"

definition spec_keywords :: "string \<Rightarrow> string list" where
  "spec_keywords category =
     (if category = ''casual_chat'' then [''lunch'', ''coffee'', ''how are you'', ''hey'', ''what's up'']
      else if category = ''work_request'' then [''can you'', ''quick question'', ''need help'', ''could you'']
      else if category = ''meeting'' then [''meeting'', ''call'', ''zoom'', ''schedule'', ''calendar'']
      else if category = ''urgent'' then [''urgent'', ''asap'', ''emergency'', ''now'', ''immediately'']
      else [])"

definition spec_category_matches :: "string \<Rightarrow> string \<Rightarrow> bool" where
  "spec_category_matches text category =
     any_of (\<lambda>keyword. str_contains keyword text) (spec_keywords category)"

text \<open>A value rounded to one decimal place in exact arithmetic (ties to even).\<close>

definition spec_round1 :: "rat \<Rightarrow> rat" where
  "spec_round1 x = of_int (round_half_even (10 * x)) / 10"

section \<open>Properties\<close>

subsection \<open>Substring search\<close>

lemma starts_with_iff: "starts_with xs ys \<longleftrightarrow> (\<exists>suf. ys = xs @ suf)"
  by (induction xs ys rule: starts_with.induct) auto

lemma str_contains_iff: "str_contains needle hay \<longleftrightarrow> (\<exists>pre suf. hay = pre @ needle @ suf)"
proof (induction hay)
  case Nil
  then show ?case by auto
next
  case (Cons y ys)
  show ?case
  proof
    assume "str_contains needle (y # ys)"
    then consider "starts_with needle (y # ys)" | "str_contains needle ys" by auto
    then show "\<exists>pre suf. y # ys = pre @ needle @ suf"
    proof cases
      case 1
      then obtain suf where "y # ys = needle @ suf" by (auto simp: starts_with_iff)
      then have "y # ys = [] @ needle @ suf" by simp
      then show ?thesis by blast
    next
      case 2
      then obtain pre suf where "ys = pre @ needle @ suf" using Cons.IH by blast
      then have "y # ys = (y # pre) @ needle @ suf" by simp
      then show ?thesis by blast
    qed
  next
    assume "\<exists>pre suf. y # ys = pre @ needle @ suf"
    then obtain pre suf where eq: "y # ys = pre @ needle @ suf" by blast
    show "str_contains needle (y # ys)"
    proof (cases pre)
      case Nil
      then have "starts_with needle (y # ys)" using eq by (auto simp: starts_with_iff)
      then show ?thesis by simp
    next
      case (Cons p ps)
      then have "ys = ps @ needle @ suf" using eq by simp
      then have "str_contains needle ys" using Cons.IH by blast
      then show ?thesis by simp
    qed
  qed
qed

lemma any_of_iff: "any_of P xs \<longleftrightarrow> (\<exists>x \<in> set xs. P x)"
  by (induction xs) auto

lemma str_contains_set: "str_contains needle hay \<Longrightarrow> set needle \<subseteq> set hay"
  by (auto simp: str_contains_iff)

lemma set_triggers:
  "set triggers = {''focus mode'', ''entering focus mode'', ''deep work'', ''do not disturb'', ''dnd''}"
  by (simp add: triggers_def)

lemma detect_focus_mode_iff:
  "detect_focus_mode transcript \<longleftrightarrow>
     (\<exists>trigger \<in> {''focus mode'', ''entering focus mode'', ''deep work'', ''do not disturb'', ''dnd''}.
        \<exists>pre suf. lower transcript = pre @ trigger @ suf)"
  unfolding detect_focus_mode_def Let_def any_of_iff set_triggers str_contains_iff ..

subsection \<open>Focus mode is checked first\<close>

text \<open>
  C1. Whenever the lowercased transcript contains one of the five trigger phrases as a
  substring, \<^verbatim>\<open>process_conversation\<close> answers \<^verbatim>\<open>focus_mode_activated\<close> and
  activates focus mode; the answer is never an \<^verbatim>\<open>interruption_...\<close> string and no
  interruption is recorded, whatever interruption keywords the transcript contains.
\<close>

theorem focus_mode_short_circuits:
  assumes "trigger \<in> {''focus mode'', ''entering focus mode'', ''deep work'', ''do not disturb'', ''dnd''}"
    and "lower transcript = pre @ trigger @ suf"
  shows "process_conversation transcript timestamp now s =
           (''focus_mode_activated'', activate_focus_mode now s)
         \<and> fst (process_conversation transcript timestamp now s) \<noteq> ''interruption_'' @ int_type
         \<and> interruptions (snd (process_conversation transcript timestamp now s)) = interruptions s"
proof -
  have "detect_focus_mode transcript"
    using assms unfolding detect_focus_mode_iff by blast
  then show ?thesis
    by (simp add: process_conversation_def activate_focus_mode_def)
qed

theorem focus_mode_short_circuits_witness:
  "''dnd'' \<in> {''focus mode'', ''entering focus mode'', ''deep work'', ''do not disturb'', ''dnd''}
   \<and> lower ''Hey, DND please, urgent meeting'' = ''hey, '' @ ''dnd'' @ '' please, urgent meeting''
   \<and> detect_interruption ''Hey, DND please, urgent meeting'' = Some ''casual_chat''
   \<and> process_conversation ''Hey, DND please, urgent meeting'' ''2024-01-01T09:00:00'' ''2024-01-01T09:00:01'' initial_state
       = (''focus_mode_activated'', activate_focus_mode ''2024-01-01T09:00:01'' initial_state)"
proof -
  have m: "''dnd'' \<in> {''focus mode'', ''entering focus mode'', ''deep work'', ''do not disturb'', ''dnd''}"
    by simp
  have l: "lower ''Hey, DND please, urgent meeting'' = ''hey, '' @ ''dnd'' @ '' please, urgent meeting''"
    by code_simp
  have d: "detect_interruption ''Hey, DND please, urgent meeting'' = Some ''casual_chat''"
    by code_simp
  show ?thesis
    using focus_mode_short_circuits [OF m l, of "''2024-01-01T09:00:00''" "''2024-01-01T09:00:01''" initial_state] m l d
    by blast
qed

subsection \<open>Priority among the interruption categories\<close>

lemma scan_patterns_first:
  "k < length ps \<Longrightarrow> any_of (\<lambda>keyword. str_contains keyword text) (snd (ps ! k)) \<Longrightarrow>
   (\<forall>j<k. \<not> any_of (\<lambda>keyword. str_contains keyword text) (snd (ps ! j))) \<Longrightarrow>
   scan_patterns text ps = Some (fst (ps ! k))"
proof (induction ps arbitrary: k)
  case Nil
  then show ?case by simp
next
  case (Cons p ps)
  obtain int_type kws where p: "p = (int_type, kws)" by (cases p)
  show ?case
  proof (cases k)
    case 0
    then show ?thesis using Cons.prems p by simp
  next
    case (Suc k')
    have first: "\<not> any_of (\<lambda>keyword. str_contains keyword text) kws"
      using Cons.prems(3) Suc p by force
    have "\<forall>j<k'. \<not> any_of (\<lambda>keyword. str_contains keyword text) (snd (ps ! j))"
      using Cons.prems(3) Suc by force
    then have "scan_patterns text ps = Some (fst (ps ! k'))"
      using Cons.IH [of k'] Cons.prems(1,2) Suc by simp
    then show ?thesis using first p Suc by simp
  qed
qed

lemma patterns_nth:
  "k < 4 \<Longrightarrow> fst (patterns ! k) = spec_priority_order ! k \<and> snd (patterns ! k) = spec_keywords (spec_priority_order ! k)"
proof -
  assume "k < 4"
  then consider "k = 0" | "k = 1" | "k = 2" | "k = 3" by linarith
  then show ?thesis
    by cases (simp_all add: patterns_def spec_priority_order_def spec_keywords_def)
qed

text \<open>
  C2. When the transcript triggers no focus mode and the keywords of some categories
  (one or several) occur in its lowercased form, the type returned is the first category
  of the order casual_chat, work_request, meeting, urgent that has a keyword in the text:
  it matches, no category before it matches, and it precedes or equals every matching
  category. Only the existence of a keyword in the text enters, not where it stands or
  how long it is.
\<close>

theorem highest_priority_category_wins:
  assumes "\<not> detect_focus_mode transcript"
    and "i < 4"
    and "spec_category_matches (lower transcript) (spec_priority_order ! i)"
  shows "\<exists>k\<le>i. spec_category_matches (lower transcript) (spec_priority_order ! k)
           \<and> (\<forall>j<k. \<not> spec_category_matches (lower transcript) (spec_priority_order ! j))
           \<and> detect_interruption transcript = Some (spec_priority_order ! k)
           \<and> fst (process_conversation transcript timestamp now s) = ''interruption_'' @ spec_priority_order ! k"
proof -
  define M where "M = (\<lambda>n. spec_category_matches (lower transcript) (spec_priority_order ! n))"
  define k where "k = (LEAST n. M n)"
  have Mi: "M i" using assms(3) by (simp add: M_def)
  have Mk: "M k" unfolding k_def using Mi by (rule LeastI)
  have ki: "k \<le> i" unfolding k_def using Mi by (rule Least_le)
  have least: "\<forall>j<k. \<not> M j" unfolding k_def using not_less_Least by blast
  have k4: "k < 4" using ki assms(2) by simp
  have len: "k < length patterns" using k4 by (simp add: patterns_def)
  have a: "any_of (\<lambda>keyword. str_contains keyword (lower transcript)) (snd (patterns ! k))"
    using Mk patterns_nth [OF k4] by (simp add: M_def spec_category_matches_def)
  have b: "\<forall>j<k. \<not> any_of (\<lambda>keyword. str_contains keyword (lower transcript)) (snd (patterns ! j))"
  proof (intro allI impI)
    fix j assume jk: "j < k"
    then have "j < 4" using k4 by simp
    then show "\<not> any_of (\<lambda>keyword. str_contains keyword (lower transcript)) (snd (patterns ! j))"
      using least jk patterns_nth [of j] by (simp add: M_def spec_category_matches_def)
  qed
  have "scan_patterns (lower transcript) patterns = Some (fst (patterns ! k))"
    using scan_patterns_first [OF len a b] .
  then have d: "detect_interruption transcript = Some (spec_priority_order ! k)"
    using patterns_nth [OF k4] by (simp add: detect_interruption_def)
  then have "fst (process_conversation transcript timestamp now s) = ''interruption_'' @ spec_priority_order ! k"
    using assms(1) by (simp add: process_conversation_def)
  then show ?thesis using ki Mk least d unfolding M_def by blast
qed

theorem highest_priority_category_wins_witness:
  "\<not> detect_focus_mode ''URGENT: zoom meeting now, can you join?''
   \<and> spec_category_matches (lower ''URGENT: zoom meeting now, can you join?'') (spec_priority_order ! 3)
   \<and> spec_category_matches (lower ''URGENT: zoom meeting now, can you join?'') (spec_priority_order ! 2)
   \<and> spec_category_matches (lower ''URGENT: zoom meeting now, can you join?'') (spec_priority_order ! 1)
   \<and> \<not> spec_category_matches (lower ''URGENT: zoom meeting now, can you join?'') (spec_priority_order ! 0)
   \<and> (\<exists>k\<le>3. detect_interruption ''URGENT: zoom meeting now, can you join?'' = Some (spec_priority_order ! k)
         \<and> (\<forall>j<k. \<not> spec_category_matches (lower ''URGENT: zoom meeting now, can you join?'') (spec_priority_order ! j)))
   \<and> detect_interruption ''URGENT: zoom meeting now, can you join?'' = Some ''work_request''"
proof -
  have f: "\<not> detect_focus_mode ''URGENT: zoom meeting now, can you join?''" by code_simp
  have i: "(3::nat) < 4" by simp
  have m3: "spec_category_matches (lower ''URGENT: zoom meeting now, can you join?'') (spec_priority_order ! 3)"
    by code_simp
  have m2: "spec_category_matches (lower ''URGENT: zoom meeting now, can you join?'') (spec_priority_order ! 2)"
    by code_simp
  have m1: "spec_category_matches (lower ''URGENT: zoom meeting now, can you join?'') (spec_priority_order ! 1)"
    by code_simp
  have m0: "\<not> spec_category_matches (lower ''URGENT: zoom meeting now, can you join?'') (spec_priority_order ! 0)"
    by code_simp
  have d: "detect_interruption ''URGENT: zoom meeting now, can you join?'' = Some ''work_request''"
    by code_simp
  show ?thesis
    using highest_priority_category_wins [OF f i m3, of "''t''" "''n''" initial_state] f m3 m2 m1 m0 d
    by blast
qed

subsection \<open>Whitespace-only transcripts\<close>

lemma lower_char_space: "isspace_char c \<Longrightarrow> lower_char c = c"
  by (auto simp: isspace_char_def lower_char_def Let_def)

lemma lower_space: "\<forall>c\<in>set s. isspace_char c \<Longrightarrow> lower s = s"
  by (induction s) (simp_all add: lower_def lower_char_space)

lemma no_keyword_in_whitespace:
  assumes "\<forall>c\<in>set text. isspace_char c"
    and "list_all (\<lambda>keyword. list_ex (\<lambda>c. \<not> isspace_char c) keyword) kws"
  shows "\<not> any_of (\<lambda>keyword. str_contains keyword text) kws"
proof
  assume "any_of (\<lambda>keyword. str_contains keyword text) kws"
  then obtain kw where kw: "kw \<in> set kws" "str_contains kw text"
    by (auto simp: any_of_iff)
  then obtain c where c: "c \<in> set kw" "\<not> isspace_char c"
    using assms(2) by (auto simp: list_all_iff list_ex_iff)
  have "set kw \<subseteq> set text" using kw(2) by (rule str_contains_set)
  then show False using c assms(1) by blast
qed

lemma scan_patterns_whitespace:
  assumes "\<forall>c\<in>set text. isspace_char c"
    and "list_all (\<lambda>p. list_all (\<lambda>keyword. list_ex (\<lambda>c. \<not> isspace_char c) keyword) (snd p)) ps"
  shows "scan_patterns text ps = None"
  using assms(2)
proof (induction ps)
  case Nil
  then show ?case by simp
next
  case (Cons p ps)
  obtain int_type kws where p: "p = (int_type, kws)" by (cases p)
  have "\<not> any_of (\<lambda>keyword. str_contains keyword text) kws"
    using no_keyword_in_whitespace [OF assms(1)] Cons.prems p by simp
  then show ?case using Cons p by simp
qed

lemma triggers_visible:
  "list_all (\<lambda>keyword. list_ex (\<lambda>c. \<not> isspace_char c) keyword) triggers"
  by code_simp

lemma patterns_visible:
  "list_all (\<lambda>p. list_all (\<lambda>keyword. list_ex (\<lambda>c. \<not> isspace_char c) keyword) (snd p)) patterns"
  by code_simp

text \<open>
  C8. A transcript that is empty or made of whitespace characters only triggers neither
  focus mode nor an interruption: \<^verbatim>\<open>process_conversation\<close> answers
  \<^verbatim>\<open>no_action_needed\<close> and leaves the state as it was.
\<close>

theorem whitespace_is_no_action:
  assumes "\<forall>c\<in>set transcript. isspace_char c"
  shows "\<not> detect_focus_mode transcript
         \<and> detect_interruption transcript = None
         \<and> process_conversation transcript timestamp now s = (''no_action_needed'', s)"
proof -
  have low: "\<forall>c\<in>set (lower transcript). isspace_char c"
    using assms lower_space [OF assms] by simp
  have f: "\<not> detect_focus_mode transcript"
    using no_keyword_in_whitespace [OF low triggers_visible] by (simp add: detect_focus_mode_def)
  have d: "detect_interruption transcript = None"
    using scan_patterns_whitespace [OF low patterns_visible] by (simp add: detect_interruption_def)
  show ?thesis using f d by (simp add: process_conversation_def)
qed

theorem whitespace_is_no_action_witness:
  "list_all isspace_char [CHR '' '', CHR 0x09, CHR 0x0A, CHR '' '']
   \<and> process_conversation [CHR '' '', CHR 0x09, CHR 0x0A, CHR '' ''] ''t'' ''n'' initial_state
       = (''no_action_needed'', initial_state)
   \<and> process_conversation [] ''t'' ''n'' initial_state = (''no_action_needed'', initial_state)"
proof -
  have w: "\<forall>c\<in>set [CHR '' '', CHR 0x09, CHR 0x0A, CHR '' '']. isspace_char c"
    by (simp add: isspace_char_def)
  have e: "\<forall>c\<in>set []. isspace_char c" by simp
  show ?thesis
    using whitespace_is_no_action [OF w, of "''t''" "''n''" initial_state]
      whitespace_is_no_action [OF e, of "''t''" "''n''" initial_state] w
    by (simp add: list_all_iff)
qed

subsection \<open>What one event changes\<close>

text \<open>
  C10. One call of \<^verbatim>\<open>process_conversation\<close> changes at most one of the two globals:
  a focus-mode activation leaves the interruption log as it was; a recorded interruption
  leaves the focus flag and the start time as they were and appends one record; no action
  leaves the whole state as it was.
\<close>

theorem process_conversation_frame:
  "(detect_focus_mode transcript \<longrightarrow>
      fst (process_conversation transcript timestamp now s) = ''focus_mode_activated''
      \<and> interruptions (snd (process_conversation transcript timestamp now s)) = interruptions s)
   \<and> (\<not> detect_focus_mode transcript \<and> detect_interruption transcript = Some int_type \<longrightarrow>
      fst (process_conversation transcript timestamp now s) = ''interruption_'' @ int_type
      \<and> focus_mode_active (snd (process_conversation transcript timestamp now s)) = focus_mode_active s
      \<and> focus_start_time (snd (process_conversation transcript timestamp now s)) = focus_start_time s
      \<and> interruptions (snd (process_conversation transcript timestamp now s)) =
          interruptions s @ [\<lparr>r_transcript = transcript, r_timestamp = timestamp, r_type = int_type,
                               time_lost_minutes = 23\<rparr>])
   \<and> (\<not> detect_focus_mode transcript \<and> detect_interruption transcript = None \<longrightarrow>
      process_conversation transcript timestamp now s = (''no_action_needed'', s))"
  by (simp add: process_conversation_def activate_focus_mode_def save_interruption_def)

theorem process_conversation_frame_witness:
  "detect_focus_mode ''deep work time''
   \<and> interruptions (snd (process_conversation ''deep work time'' ''t1'' ''n1'' initial_state)) = []
   \<and> \<not> detect_focus_mode ''coffee?'' \<and> detect_interruption ''coffee?'' = Some ''casual_chat''
   \<and> focus_mode_active (snd (process_conversation ''coffee?'' ''t2'' ''n2''
        (activate_focus_mode ''n1'' initial_state)))
   \<and> focus_start_time (snd (process_conversation ''coffee?'' ''t2'' ''n2''
        (activate_focus_mode ''n1'' initial_state))) = Some ''n1''
   \<and> \<not> detect_focus_mode ''the weather is nice'' \<and> detect_interruption ''the weather is nice'' = None
   \<and> process_conversation ''the weather is nice'' ''t3'' ''n3'' initial_state
        = (''no_action_needed'', initial_state)"
proof -
  have a: "detect_focus_mode ''deep work time''" by code_simp
  have b: "\<not> detect_focus_mode ''coffee?''" by code_simp
  have c: "detect_interruption ''coffee?'' = Some ''casual_chat''" by code_simp
  have d: "\<not> detect_focus_mode ''the weather is nice''" by code_simp
  have e: "detect_interruption ''the weather is nice'' = None" by code_simp
  have i: "interruptions initial_state = []" by (simp add: initial_state_def)
  have f: "focus_mode_active (activate_focus_mode ''n1'' initial_state)"
    "focus_start_time (activate_focus_mode ''n1'' initial_state) = Some ''n1''"
    by (simp_all add: activate_focus_mode_def)
  show ?thesis
    using process_conversation_frame [of "''deep work time''" "''t1''" "''n1''" initial_state]
      process_conversation_frame [of "''coffee?''" "''t2''" "''n2''"
        "activate_focus_mode ''n1'' initial_state" "''casual_chat''"]
      process_conversation_frame [of "''the weather is nice''" "''t3''" "''n3''" initial_state]
      a b c d e i f
    by simp
qed

subsection \<open>Activating focus mode\<close>

text \<open>
  C6. After two activations in a row, from any state, focus mode is active and the start
  time is the clock reading of the second activation; the activation has no error branch
  and the interruption log is untouched.
\<close>

theorem activate_twice:
  "focus_mode_active (activate_focus_mode t2 (activate_focus_mode t1 s))
   \<and> focus_start_time (activate_focus_mode t2 (activate_focus_mode t1 s)) = Some t2
   \<and> interruptions (activate_focus_mode t2 (activate_focus_mode t1 s)) = interruptions s"
  by (simp add: activate_focus_mode_def)

lemma apply_op_keeps_active: "focus_mode_active s \<Longrightarrow> focus_mode_active (apply_op operation s)"
  by (cases operation)
     (auto simp: process_conversation_def activate_focus_mode_def save_interruption_def
           split: option.splits)

lemma run_ops_keeps_active: "focus_mode_active s \<Longrightarrow> focus_mode_active (run_ops ops s)"
  by (induction ops arbitrary: s) (simp_all add: apply_op_keeps_active)

lemma apply_op_active_iff:
  "focus_mode_active (apply_op operation s) \<longleftrightarrow>
     focus_mode_active s \<or>
     (\<exists>transcript timestamp now. operation = ProcessEvent transcript timestamp now
        \<and> detect_focus_mode transcript)"
  by (cases operation)
     (auto simp: process_conversation_def activate_focus_mode_def save_interruption_def
           split: option.splits)

lemma run_ops_active_iff:
  "focus_mode_active (run_ops ops s) \<longleftrightarrow>
     focus_mode_active s \<or>
     (\<exists>transcript timestamp now. ProcessEvent transcript timestamp now \<in> set ops
        \<and> detect_focus_mode transcript)"
proof (induction ops arbitrary: s)
  case Nil
  then show ?case by simp
next
  case (Cons operation ops)
  show ?case
    unfolding run_ops.simps Cons.IH apply_op_active_iff by (simp, blast)
qed

text \<open>
  C7. No sequence of core operations turns an active focus mode off; and from the initial
  state, focus mode is active after a run exactly when some processed event of the run was
  classified as a focus-mode activation.
\<close>

theorem focus_never_deactivates:
  "(focus_mode_active s \<longrightarrow> focus_mode_active (run_ops ops s))
   \<and> (focus_mode_active (run_ops ops initial_state) \<longleftrightarrow>
        (\<exists>transcript timestamp now. ProcessEvent transcript timestamp now \<in> set ops
           \<and> detect_focus_mode transcript))"
  using run_ops_keeps_active [of s ops] run_ops_active_iff [of ops initial_state]
  by (simp add: initial_state_def)

theorem focus_never_deactivates_witness:
  "focus_mode_active (activate_focus_mode ''n0'' initial_state)
   \<and> focus_mode_active (run_ops [ProcessEvent ''coffee?'' ''t1'' ''n1'', GenerateReport,
        ProcessEvent ''nothing here'' ''t2'' ''n2''] (activate_focus_mode ''n0'' initial_state))
   \<and> \<not> focus_mode_active (run_ops [ProcessEvent ''coffee?'' ''t1'' ''n1'', GenerateReport] initial_state)"
proof -
  have a: "focus_mode_active (activate_focus_mode ''n0'' initial_state)"
    by (simp add: activate_focus_mode_def)
  have b: "\<not> detect_focus_mode ''coffee?''" by code_simp
  show ?thesis
    using focus_never_deactivates [of "activate_focus_mode ''n0'' initial_state"
        "[ProcessEvent ''coffee?'' ''t1'' ''n1'', GenerateReport, ProcessEvent ''nothing here'' ''t2'' ''n2'']"]
      focus_never_deactivates [of initial_state "[ProcessEvent ''coffee?'' ''t1'' ''n1'', GenerateReport]"]
      a b
    by auto
qed

subsection \<open>Rounding to the nearest integer and to the nearest double\<close>

lemma round_half_even_error: "\<bar>of_int (round_half_even y) - y\<bar> \<le> 1 / 2"
proof -
  have "of_int \<lfloor>y\<rfloor> \<le> y" "y < of_int \<lfloor>y\<rfloor> + 1" by linarith+
  then show ?thesis by (auto simp: round_half_even_def Let_def)
qed

lemma round_half_even_unique:
  assumes "\<bar>y - of_int k\<bar> < 1 / 2"
  shows "round_half_even y = k"
proof (cases "of_int k \<le> y")
  case True
  then have "\<lfloor>y\<rfloor> = k" using assms by (intro floor_unique) auto
  then show ?thesis using assms True by (auto simp: round_half_even_def Let_def)
next
  case False
  then have "\<lfloor>y\<rfloor> = k - 1" using assms by (intro floor_unique) auto
  then show ?thesis using assms False by (auto simp: round_half_even_def Let_def)
qed

lemma round_half_even_ge: "of_int k \<le> y \<Longrightarrow> k \<le> round_half_even y"
proof -
  assume "of_int k \<le> y"
  then have "k \<le> \<lfloor>y\<rfloor>" by (simp add: le_floor_iff)
  then show ?thesis by (auto simp: round_half_even_def Let_def)
qed

lemma round_half_even_le: "y \<le> of_int k \<Longrightarrow> round_half_even y \<le> k"
proof -
  assume a: "y \<le> of_int k"
  have fl: "\<lfloor>y\<rfloor> \<le> k" using a by (simp add: floor_le_iff)
  show ?thesis
  proof (cases "y = of_int \<lfloor>y\<rfloor>")
    case True
    then have "y - of_int \<lfloor>y\<rfloor> = 0" by simp
    then show ?thesis using fl by (simp add: round_half_even_def Let_def)
  next
    case False
    then have "of_int \<lfloor>y\<rfloor> < y" using of_int_floor_le [of y] by linarith
    then have "of_int \<lfloor>y\<rfloor> < (of_int k :: rat)" using a by linarith
    then have "\<lfloor>y\<rfloor> < k" by simp
    then show ?thesis by (auto simp: round_half_even_def Let_def)
  qed
qed

lemma binexp_bounds:
  assumes "0 < x"
  shows "2 powi binexp x \<le> x \<and> x < 2 powi (binexp x + 1)"
proof (cases "1 \<le> x")
  case True
  define n where "n = \<lfloor>x\<rfloor>"
  have n1: "1 \<le> n" using True by (simp add: n_def le_floor_iff)
  then have n0: "0 < n" by simp
  have b: "2 ^ nat (bitlen n - 1) \<le> n" "n < 2 ^ nat (bitlen n)"
    using bitlen_bounds [OF n0] by simp_all
  have bl: "1 \<le> bitlen n"
  proof (rule ccontr)
    assume "\<not> 1 \<le> bitlen n"
    then have "nat (bitlen n) = 0" by simp
    then show False using b(2) n1 by simp
  qed
  have e: "binexp x = bitlen n - 1" using True by (simp add: binexp_def n_def)
  have "(2::rat) powi (bitlen n - 1) = 2 ^ nat (bitlen n - 1)"
    using bl by (simp add: power_int_def)
  also have "\<dots> = of_int (2 ^ nat (bitlen n - 1))" by simp
  also have "\<dots> \<le> of_int n" using b(1) by (simp only: of_int_le_iff)
  also have "\<dots> \<le> x" by (simp add: n_def)
  finally have lo: "2 powi binexp x \<le> x" by (simp add: e)
  have "n + 1 \<le> 2 ^ nat (bitlen n)" using b(2) by simp
  then have "(of_int (n + 1) :: rat) \<le> of_int (2 ^ nat (bitlen n))" by (simp only: of_int_le_iff)
  moreover have "x < of_int (n + 1)" unfolding n_def by linarith
  ultimately have "x < of_int (2 ^ nat (bitlen n))" by linarith
  also have "\<dots> = 2 powi (bitlen n)" using bl by (simp add: power_int_def)
  finally have hi: "x < 2 powi (binexp x + 1)" by (simp add: e)
  show ?thesis using lo hi by simp
next
  case False
  then have x1: "x < 1" by simp
  define m where "m = \<lceil>1 / x\<rceil>"
  have inv: "1 < 1 / x" using assms x1 by (simp add: field_simps)
  have m2: "2 \<le> m" using inv unfolding m_def by linarith
  then have m0: "0 < m - 1" by simp
  define b where "b = bitlen (m - 1)"
  have bb: "2 ^ nat (b - 1) \<le> m - 1" "m - 1 < 2 ^ nat b"
    using bitlen_bounds [OF m0] by (simp_all add: b_def)
  have bl: "1 \<le> b"
  proof (rule ccontr)
    assume "\<not> 1 \<le> b"
    then have "nat b = 0" by simp
    then show False using bb(2) m2 by simp
  qed
  have e: "binexp x = - b" using False by (simp add: binexp_def m_def b_def)
  have "m \<le> 2 ^ nat b" using bb(2) by simp
  then have "(of_int m :: rat) \<le> of_int (2 ^ nat b)" by (simp only: of_int_le_iff)
  moreover have "1 / x \<le> of_int m" unfolding m_def by linarith
  ultimately have "1 / x \<le> of_int (2 ^ nat b)" by linarith
  then have "1 / x \<le> 2 ^ nat b" by simp
  then have "1 \<le> 2 ^ nat b * x" using assms by (simp add: field_simps)
  then have "1 / 2 ^ nat b \<le> x" by (simp add: field_simps)
  moreover have "(2::rat) powi (- b) = 1 / 2 ^ nat b"
    using bl by (simp add: power_int_def field_simps)
  ultimately have lo: "2 powi binexp x \<le> x" by (simp add: e)
  have "(of_int (2 ^ nat (b - 1)) :: rat) \<le> of_int (m - 1)" using bb(1) by (simp only: of_int_le_iff)
  moreover have "of_int (m - 1) < 1 / x" unfolding m_def by linarith
  ultimately have "of_int (2 ^ nat (b - 1)) < 1 / x" by linarith
  then have "2 ^ nat (b - 1) < 1 / x" by simp
  then have "2 ^ nat (b - 1) * x < 1" using assms by (simp add: field_simps)
  then have "x < 1 / 2 ^ nat (b - 1)" by (simp add: field_simps)
  moreover have "(2::rat) powi (- b + 1) = 1 / 2 ^ nat (b - 1)"
  proof (cases "b = 1")
    case True
    then show ?thesis by simp
  next
    case False
    then have "- b + 1 < 0" using bl by simp
    then have "(2::rat) powi (- b + 1) = inverse 2 ^ nat (b - 1)"
      by (simp add: power_int_def)
    then show ?thesis by (simp add: field_simps)
  qed
  ultimately have hi: "x < 2 powi (binexp x + 1)" by (simp add: e)
  show ?thesis using lo hi by simp
qed

lemma pow2_pos: "0 < (2::rat) powi e"
  by (simp add: power_int_def)

lemma round_to_double_pos_def:
  "0 < x \<Longrightarrow> round_to_double x = of_int (round_half_even (x / 2 powi (binexp x - 52))) * 2 powi (binexp x - 52)"
  by (simp add: round_to_double_def Let_def)

lemma round_to_double_error:
  assumes "0 < x"
  shows "\<bar>round_to_double x - x\<bar> \<le> x / 2 ^ 53"
proof -
  define u :: rat where "u = 2 powi (binexp x - 52)"
  have u0: "0 < u" by (simp add: u_def pow2_pos)
  have ue: "u = 2 powi binexp x / 2 ^ 52"
    unfolding u_def by (subst power_int_diff) simp_all
  have "round_to_double x - x = (of_int (round_half_even (x / u)) - x / u) * u"
    using u0 assms by (simp add: round_to_double_pos_def u_def field_simps)
  then have "\<bar>round_to_double x - x\<bar> = \<bar>of_int (round_half_even (x / u)) - x / u\<bar> * u"
    using u0 by (simp add: abs_mult)
  also have "\<dots> \<le> 1 / 2 * u"
    using round_half_even_error [of "x / u"] u0 by (intro mult_right_mono) simp_all
  also have "\<dots> = 2 powi binexp x / 2 ^ 53" by (simp add: ue)
  also have "\<dots> \<le> x / 2 ^ 53"
    using binexp_bounds [OF assms] by (simp add: divide_right_mono)
  finally show ?thesis .
qed

lemma round_to_double_grid_ge:
  assumes "0 < x" and "of_int k * 2 powi (binexp x - 52) \<le> x"
  shows "of_int k * 2 powi (binexp x - 52) \<le> round_to_double x"
proof -
  define u :: rat where "u = 2 powi (binexp x - 52)"
  have u0: "0 < u" by (simp add: u_def pow2_pos)
  have "of_int k \<le> x / u" using assms(2) u0 by (simp add: u_def field_simps)
  then have "k \<le> round_half_even (x / u)" by (rule round_half_even_ge)
  then have "(of_int k :: rat) \<le> of_int (round_half_even (x / u))" by (simp only: of_int_le_iff)
  then have "of_int k * u \<le> of_int (round_half_even (x / u)) * u"
    using u0 by (intro mult_right_mono) simp_all
  then show ?thesis using assms(1) by (simp add: round_to_double_pos_def u_def)
qed

lemma round_to_double_grid_le:
  assumes "0 < x" and "x \<le> of_int k * 2 powi (binexp x - 52)"
  shows "round_to_double x \<le> of_int k * 2 powi (binexp x - 52)"
proof -
  define u :: rat where "u = 2 powi (binexp x - 52)"
  have u0: "0 < u" by (simp add: u_def pow2_pos)
  have "x / u \<le> of_int k" using assms(2) u0 by (simp add: u_def field_simps)
  then have "round_half_even (x / u) \<le> k" by (rule round_half_even_le)
  then have "(of_int (round_half_even (x / u)) :: rat) \<le> of_int k" by (simp only: of_int_le_iff)
  then have "of_int (round_half_even (x / u)) * u \<le> of_int k * u"
    using u0 by (intro mult_right_mono) simp_all
  then show ?thesis using assms(1) by (simp add: round_to_double_pos_def u_def)
qed

lemma pow2_nat_grid:
  assumes "e \<le> 52"
  shows "of_int (c * 2 ^ nat (52 - e)) * (2::rat) powi (e - 52) = of_int c"
proof -
  have a: "(2::rat) ^ nat (52 - e) = 2 powi (52 - e)" using assms by (simp add: power_int_def)
  have "(2::rat) powi (52 - e) * 2 powi (e - 52) = 2 powi ((52 - e) + (e - 52))"
    by (rule power_int_add [symmetric]) simp
  then have "(2::rat) ^ nat (52 - e) * 2 powi (e - 52) = 1" using a by simp
  then show ?thesis by (simp add: mult.assoc)
qed

lemma round_to_double_ge_9:
  assumes "9 \<le> x"
  shows "9 \<le> round_to_double x"
proof -
  have x0: "0 < x" using assms by simp
  show ?thesis
  proof (cases "binexp x \<le> 52")
    case True
    have g: "of_int (9 * 2 ^ nat (52 - binexp x)) * 2 powi (binexp x - 52) = (9::rat)"
      using pow2_nat_grid [OF True, of 9] by simp
    have "of_int (9 * 2 ^ nat (52 - binexp x)) * 2 powi (binexp x - 52) \<le> round_to_double x"
      using assms g by (intro round_to_double_grid_ge [OF x0]) linarith
    then show ?thesis using g by linarith
  next
    case False
    have "of_int (2 ^ 52) * 2 powi (binexp x - 52) = (2::rat) powi binexp x"
      by (subst power_int_diff) simp_all
    moreover have "2 powi binexp x \<le> x" using binexp_bounds [OF x0] by simp
    ultimately have "of_int (2 ^ 52) * 2 powi (binexp x - 52) \<le> round_to_double x"
      by (intro round_to_double_grid_ge [OF x0]) simp
    moreover have "(2::rat) powi 4 \<le> 2 powi binexp x"
      using False by (intro power_int_increasing) simp_all
    ultimately show ?thesis
      using \<open>of_int (2 ^ 52) * 2 powi (binexp x - 52) = (2::rat) powi binexp x\<close> by simp
  qed
qed

lemma round_to_double_le_1:
  assumes "y \<le> 1"
  shows "round_to_double y \<le> 1"
proof -
  consider "y = 0" | "y < 0" | "0 < y" by linarith
  then show ?thesis
  proof cases
    case 1
    then show ?thesis by (simp add: round_to_double_def)
  next
    case 2
    define u :: rat where "u = 2 powi (binexp \<bar>y\<bar> - 52)"
    have u0: "0 < u" by (simp add: u_def pow2_pos)
    have "y / u \<le> of_int 0" using 2 u0 by (simp add: field_simps)
    then have "round_half_even (y / u) \<le> 0" by (rule round_half_even_le)
    then have "(of_int (round_half_even (y / u)) :: rat) \<le> 0" by simp
    then have "of_int (round_half_even (y / u)) * u \<le> 0"
      using u0 by (simp add: mult_le_0_iff)
    then show ?thesis using 2 by (simp add: round_to_double_def Let_def u_def)
  next
    case 3
    have "2 powi binexp y \<le> (2::rat) powi 0" using binexp_bounds [OF 3] assms by simp
    then have e0: "binexp y \<le> 0" by (rule power_int_le_imp_le_exp [rotated]) simp_all
    then have e52: "binexp y \<le> 52" by simp
    have g: "of_int (1 * 2 ^ nat (52 - binexp y)) * 2 powi (binexp y - 52) = (1::rat)"
      using pow2_nat_grid [OF e52, of 1] by simp
    have "round_to_double y \<le> of_int (1 * 2 ^ nat (52 - binexp y)) * 2 powi (binexp y - 52)"
      using assms g by (intro round_to_double_grid_le [OF 3]) linarith
    then show ?thesis using g by linarith
  qed
qed

lemma round_to_double_0: "round_to_double 0 = 0"
  by (simp add: round_to_double_def)

lemma round_to_double_10: "round_to_double 10 = 10"
  by code_simp

lemma round_to_double_1: "round_to_double 1 = 1"
  by code_simp

lemma round_half_even_floor: "round_half_even y = \<lfloor>y\<rfloor> \<or> round_half_even y = \<lfloor>y\<rfloor> + 1"
  by (simp add: round_half_even_def Let_def)

lemma round_half_even_of_int: "round_half_even (of_int k) = k"
  by (rule round_half_even_unique) simp

lemma hours_scaled_error:
  fixes n :: int
  assumes "0 < n" and "23 * n < 2 ^ 53"
  shows "\<bar>round_to_double (of_int (n * 23) / of_int 60) * 10 - of_int (23 * n) / 6\<bar> < 1 / 6"
proof -
  define x :: rat where "x = of_int (n * 23) / of_int 60"
  have x0: "0 < x" using assms(1) by (simp add: x_def)
  have e: "\<bar>round_to_double x - x\<bar> \<le> x / 2 ^ 53" using round_to_double_error [OF x0] .
  have "(of_int (23 * n) :: rat) < of_int (2 ^ 53)" using assms(2) by (simp only: of_int_less_iff)
  then have "60 * x < 2 ^ 53" by (simp add: x_def)
  then have "x / 2 ^ 53 < 1 / 60" by simp
  then have "\<bar>round_to_double x - x\<bar> < 1 / 60" using e by linarith
  moreover have "of_int (23 * n) / 6 = 10 * x" by (simp add: x_def)
  ultimately show ?thesis unfolding x_def [symmetric] by linarith
qed

lemma hours_round_nontie:
  fixes n :: int
  assumes "0 < n" and "23 * n < 2 ^ 53" and "n mod 6 \<noteq> 3"
  shows "round_half_even (round_to_double (of_int (n * 23) / of_int 60) * 10)
           = round_half_even (10 * (of_int n * 23 / 60))"
proof -
  define k where "k = (23 * n + 3) div 6"
  have "\<bar>23 * n - 6 * k\<bar> \<le> 2" using assms(3) unfolding k_def by presburger
  then have "\<bar>(of_int (23 * n - 6 * k) :: rat)\<bar> \<le> of_int 2"
    by (simp only: of_int_abs [symmetric] of_int_le_iff)
  then have near: "\<bar>of_int (23 * n) / 6 - (of_int k :: rat)\<bar> \<le> 1 / 3"
    by (simp add: field_simps)
  have "\<bar>round_to_double (of_int (n * 23) / of_int 60) * 10 - of_int k\<bar> < 1 / 2"
    using hours_scaled_error [OF assms(1,2)] near by linarith
  then have a: "round_half_even (round_to_double (of_int (n * 23) / of_int 60) * 10) = k"
    by (rule round_half_even_unique)
  have "10 * (of_int n * 23 / 60) = (of_int (23 * n) / 6 :: rat)" by simp
  then have "\<bar>10 * (of_int n * 23 / 60) - (of_int k :: rat)\<bar> < 1 / 2" using near by linarith
  then have b: "round_half_even (10 * (of_int n * 23 / 60)) = k"
    by (rule round_half_even_unique)
  show ?thesis using a b by simp
qed

lemma hours_round_tie:
  fixes n :: int
  assumes "0 < n" and "23 * n < 2 ^ 53" and "n mod 6 = 3"
  shows "round_half_even (round_to_double (of_int (n * 23) / of_int 60) * 10) = \<lfloor>10 * (of_int n * 23 / 60 :: rat)\<rfloor>
       \<or> round_half_even (round_to_double (of_int (n * 23) / of_int 60) * 10) = \<lfloor>10 * (of_int n * 23 / 60 :: rat)\<rfloor> + 1"
proof -
  define m where "m = (23 * n - 3) div 6"
  define d :: rat where "d = round_to_double (of_int (n * 23) / of_int 60) * 10"
  have "23 * n = 6 * m + 3" using assms(3) unfolding m_def by presburger
  then have "(of_int (23 * n) :: rat) = of_int (6 * m + 3)" by simp
  then have mid: "of_int (23 * n) / 6 = (of_int m :: rat) + 1 / 2" by (simp add: field_simps)
  have ex: "10 * (of_int n * 23 / 60) = (of_int (23 * n) / 6 :: rat)" by simp
  have "\<lfloor>10 * (of_int n * 23 / 60 :: rat)\<rfloor> = m"
    unfolding ex mid by (rule floor_unique) simp_all
  moreover have "\<lfloor>d\<rfloor> = m"
    using hours_scaled_error [OF assms(1,2)] mid unfolding d_def [symmetric]
    by (intro floor_unique) linarith+
  ultimately show ?thesis
    using round_half_even_floor [of d] unfolding d_def by simp
qed

lemma focus_round_mid:
  fixes n :: int
  assumes "1 \<le> n" and "n \<le> 26"
  shows "\<exists>d. round_to_double (10 - round_to_double (of_int n / of_int 3)) = d
           \<and> 1 < d \<and> d < 10
           \<and> round_half_even (d * 10) = round_half_even (10 * (10 - of_int n / 3))"
proof -
  define x :: rat where "x = of_int n / of_int 3"
  define d1 where "d1 = round_to_double x"
  define d2 where "d2 = round_to_double (10 - d1)"
  have "(of_int 1 :: rat) \<le> of_int n" "(of_int n :: rat) \<le> of_int 26"
    using assms by (simp_all only: of_int_le_iff)
  then have xb: "1 / 3 \<le> x" "x \<le> 26 / 3" by (simp_all add: x_def)
  then have x0: "0 < x" by linarith
  have "x / 2 ^ 53 \<le> (26 / 3) / 2 ^ 53" using xb(2) by (rule divide_right_mono) simp
  also have "\<dots> \<le> 1 / 200" by simp
  finally have e1: "\<bar>d1 - x\<bar> \<le> 1 / 200"
    using round_to_double_error [OF x0] unfolding d1_def by linarith
  have yb: "1 < 10 - d1" "10 - d1 \<le> 10" using e1 xb by linarith+
  then have y0: "0 < 10 - d1" by linarith
  have "(10 - d1) / 2 ^ 53 \<le> 10 / 2 ^ 53" using yb(2) by (rule divide_right_mono) simp
  also have "\<dots> \<le> 1 / 200" by simp
  finally have e2: "\<bar>d2 - (10 - d1)\<bar> \<le> 1 / 200"
    using round_to_double_error [OF y0] unfolding d2_def by linarith
  have tot: "\<bar>d2 - (10 - x)\<bar> \<le> 1 / 100" using e1 e2 by linarith
  have lo: "1 < d2" and hi: "d2 < 10" using tot xb by linarith+
  define k where "k = (603 - 20 * n) div 6"
  have "\<bar>(600 - 20 * n) - 6 * k\<bar> \<le> 2" unfolding k_def by presburger
  then have "\<bar>(of_int ((600 - 20 * n) - 6 * k) :: rat)\<bar> \<le> of_int 2"
    by (simp only: of_int_abs [symmetric] of_int_le_iff)
  then have "\<bar>(600 - 20 * of_int n) / 6 - (of_int k :: rat)\<bar> \<le> 1 / 3"
    by (simp add: field_simps)
  moreover have "(600 - 20 * of_int n) / 6 = 100 - 10 * x" by (simp add: x_def field_simps)
  ultimately have near: "\<bar>100 - 10 * x - of_int k\<bar> \<le> 1 / 3" by simp
  have "\<bar>d2 * 10 - of_int k\<bar> < 1 / 2" using near tot by linarith
  then have a: "round_half_even (d2 * 10) = k" by (rule round_half_even_unique)
  have ex: "10 * (10 - x) = 100 - 10 * x" by simp
  have "\<bar>10 * (10 - x) - of_int k\<bar> < 1 / 2" unfolding ex using near by linarith
  then have b: "round_half_even (10 * (10 - x)) = k" by (rule round_half_even_unique)
  show ?thesis using a b lo hi unfolding d2_def d1_def x_def by simp
qed

lemma focus_score_mid:
  fixes n :: int
  assumes "1 \<le> n" and "n \<le> 26"
  shows "py_round1 (py_max (PyInt 1) (py_min (PyInt 10) (py_sub (PyInt 10) (int_truediv n 3)))) = PyFloat (round_to_double (spec_round1 (max 1 (min 10 (10 - of_int n / 3)))))"
proof -
  obtain d where d: "round_to_double (10 - round_to_double (of_int n / of_int 3)) = d"
    "1 < d" "d < 10" "round_half_even (d * 10) = round_half_even (10 * (10 - of_int n / 3))"
    using focus_round_mid [OF assms] by blast
  have "(of_int 1 :: rat) \<le> of_int n" "(of_int n :: rat) \<le> of_int 26"
    using assms by (simp_all only: of_int_le_iff)
  then have c: "max 1 (min 10 (10 - of_int n / 3)) = (10 - of_int n / 3 :: rat)" by simp
  have s: "py_sub (PyInt 10) (int_truediv n 3) = PyFloat d"
    using d(1) by (simp add: py_sub_def int_truediv_def py_float_def round_to_double_10)
  show ?thesis
    unfolding s c using d(2,3,4)
    by (simp add: py_min_def py_max_def py_round1_def spec_round1_def)
qed

lemma focus_score_high:
  fixes n :: int
  assumes "27 \<le> n"
  shows "py_round1 (py_max (PyInt 1) (py_min (PyInt 10) (py_sub (PyInt 10) (int_truediv n 3)))) = PyInt 1"
proof -
  have "(of_int 27 :: rat) \<le> of_int n" using assms by (simp only: of_int_le_iff)
  then have "9 \<le> (of_int n / of_int 3 :: rat)" by simp
  then have "9 \<le> round_to_double (of_int n / of_int 3)" by (rule round_to_double_ge_9)
  then have "10 - round_to_double (of_int n / of_int 3) \<le> 1" by simp
  then have le: "round_to_double (10 - round_to_double (of_int n / of_int 3)) \<le> 1"
    by (rule round_to_double_le_1)
  have s: "py_sub (PyInt 10) (int_truediv n 3) =
             PyFloat (round_to_double (10 - round_to_double (of_int n / of_int 3)))"
    by (simp add: py_sub_def int_truediv_def py_float_def round_to_double_10)
  show ?thesis
    unfolding s using le
    by (simp add: py_min_def py_max_def py_round1_def)
qed

lemma focus_score_zero: "py_round1 (py_max (PyInt 1) (py_min (PyInt 10) (py_sub (PyInt 10) (int_truediv 0 3)))) = PyInt 10"
  by (simp add: py_sub_def int_truediv_def py_float_def round_to_double_10
        round_to_double_0 py_min_def py_max_def py_round1_def)

lemma focus_score_value:
  fixes n :: int
  assumes "0 \<le> n"
  shows "py_value (py_round1 (py_max (PyInt 1) (py_min (PyInt 10) (py_sub (PyInt 10) (int_truediv n 3))))) = round_to_double (spec_round1 (max 1 (min 10 (10 - of_int n / 3))))"
proof -
  consider "n = 0" | "1 \<le> n \<and> n \<le> 26" | "27 \<le> n" using assms by linarith
  then show ?thesis
  proof cases
    case 1
    then show ?thesis
      by (simp add: focus_score_zero spec_round1_def round_half_even_of_int [of 100, simplified]
            round_to_double_10)
  next
    case 2
    then show ?thesis using focus_score_mid [of n] by simp
  next
    case 3
    then have "(of_int 27 :: rat) \<le> of_int n" by (simp only: of_int_le_iff)
    then have "max 1 (min 10 (10 - of_int n / 3)) = (1 :: rat)" by simp
    then show ?thesis
      using 3 by (simp add: focus_score_high spec_round1_def round_half_even_of_int [of 10, simplified]
            round_to_double_1)
  qed
qed

subsection \<open>The statistics of the report\<close>

lemma hours_lost_zero: "py_round1 (int_truediv (0 * 23) 60) = PyFloat 0"
  by (simp add: int_truediv_def py_round1_def round_to_double_0 round_half_even_of_int [of 0, simplified])

lemma spec_round1_zero: "spec_round1 0 = 0"
  by (simp add: spec_round1_def round_half_even_of_int [of 0, simplified])

text \<open>
  C3, as stated, fails for three records. The quotient \<open>3 * 23 / 60\<close> is exactly
  \<open>1.15\<close>, which rounds to \<open>1.2\<close> (ties to even, and also ties upwards). The program
  divides in binary floating point: the double nearest to \<open>1.15\<close> lies below it, and
  \<^verbatim>\<open>round\<close> returns \<open>1.1\<close>.
\<close>

theorem hours_lost_three_records:
  "hours_lost (generate_daily_report (run_ops [ProcessEvent ''coffee?'' ''t1'' ''n1'',
       ProcessEvent ''quick question'' ''t2'' ''n2'', ProcessEvent ''zoom at 5'' ''t3'' ''n3''] initial_state))
     = PyFloat (round_to_double (11 / 10))
   \<and> spec_round1 (3 * 23 / 60) = 12 / 10
   \<and> \<lfloor>10 * (3 * 23 / 60 :: rat) + 1 / 2\<rfloor> = 12
   \<and> hours_lost (generate_daily_report (run_ops [ProcessEvent ''coffee?'' ''t1'' ''n1'',
       ProcessEvent ''quick question'' ''t2'' ''n2'', ProcessEvent ''zoom at 5'' ''t3'' ''n3''] initial_state))
     \<noteq> PyFloat (round_to_double (spec_round1 (3 * 23 / 60)))"
proof -
  have len: "length (interruptions (run_ops [ProcessEvent ''coffee?'' ''t1'' ''n1'',
       ProcessEvent ''quick question'' ''t2'' ''n2'', ProcessEvent ''zoom at 5'' ''t3'' ''n3''] initial_state)) = 3"
    by code_simp
  have h: "py_round1 (int_truediv (3 * 23) 60) = PyFloat (round_to_double (11 / 10))"
    by code_simp
  have s: "spec_round1 (3 * 23 / 60) = 12 / 10"
    by code_simp
  have f: "\<lfloor>10 * (3 * 23 / 60 :: rat) + 1 / 2\<rfloor> = 12"
    by simp
  have d: "round_to_double (11 / 10) \<noteq> round_to_double (12 / 10)"
    by code_simp
  have r: "hours_lost (generate_daily_report (run_ops [ProcessEvent ''coffee?'' ''t1'' ''n1'',
       ProcessEvent ''quick question'' ''t2'' ''n2'', ProcessEvent ''zoom at 5'' ''t3'' ''n3''] initial_state))
     = py_round1 (int_truediv (3 * 23) 60)"
    unfolding generate_daily_report_def Let_def len by simp
  show ?thesis
    unfolding r h s using f d by simp
qed

text \<open>
  C3, amended. For a log of \<open>n\<close> records with \<open>23 * n < 2^53\<close>:
  \<^verbatim>\<open>total_interruptions\<close> is \<open>n\<close>; \<^verbatim>\<open>hours_lost\<close> is the float of
  \<open>n * 23 / 60\<close> rounded to one decimal place whenever that quotient is not exactly halfway
  between two tenths (\<open>n mod 6 \<noteq> 3\<close>), and at such a midpoint it is the float of one of the
  two neighbouring tenths; \<^verbatim>\<open>focus_score\<close> has the value of the float of
  \<open>10 - n / 3\<close> clamped to \<open>[1, 10]\<close> and rounded to one decimal place; and the empty log
  gives 0, 0.0, 10 (the \<^verbatim>\<open>int\<close>, equal to 10.0) and the empty mapping.
\<close>

theorem report_statistics:
  assumes "23 * int (length (interruptions s)) < 2 ^ 53"
  shows "total_interruptions (generate_daily_report s) = int (length (interruptions s))
    \<and> (length (interruptions s) mod 6 \<noteq> 3 \<longrightarrow>
         hours_lost (generate_daily_report s)
           = PyFloat (round_to_double (spec_round1 (of_nat (length (interruptions s)) * 23 / 60))))
    \<and> (length (interruptions s) mod 6 = 3 \<longrightarrow>
         hours_lost (generate_daily_report s)
           = PyFloat (round_to_double (of_int \<lfloor>10 * (of_nat (length (interruptions s)) * 23 / 60 :: rat)\<rfloor> / 10))
       \<or> hours_lost (generate_daily_report s)
           = PyFloat (round_to_double (of_int (\<lfloor>10 * (of_nat (length (interruptions s)) * 23 / 60 :: rat)\<rfloor> + 1) / 10)))
    \<and> py_value (focus_score (generate_daily_report s))
         = round_to_double (spec_round1 (max 1 (min 10 (10 - of_nat (length (interruptions s)) / 3))))
    \<and> (interruptions s = [] \<longrightarrow>
         total_interruptions (generate_daily_report s) = 0
         \<and> hours_lost (generate_daily_report s) = PyFloat 0
         \<and> focus_score (generate_daily_report s) = PyInt 10
         \<and> interruptions_by_type (generate_daily_report s) = [])"
proof -
  define n where "n = int (length (interruptions s))"
  have n0: "0 \<le> n" by (simp add: n_def)
  have nn: "(of_nat (length (interruptions s)) :: rat) = of_int n" by (simp add: n_def)
  have nm: "int (length (interruptions s) mod 6) = n mod 6" by (simp add: n_def zmod_int)
  have b: "23 * n < 2 ^ 53" using assms by (simp add: n_def)
  have h: "hours_lost (generate_daily_report s) = py_round1 (int_truediv (n * 23) 60)"
    by (simp add: generate_daily_report_def Let_def n_def)
  have f: "focus_score (generate_daily_report s)
      = py_round1 (py_max (PyInt 1) (py_min (PyInt 10) (py_sub (PyInt 10) (int_truediv n 3))))"
    by (simp add: generate_daily_report_def Let_def n_def)
  have c1: "total_interruptions (generate_daily_report s) = int (length (interruptions s))"
    by (simp add: generate_daily_report_def Let_def)
  have c2: "hours_lost (generate_daily_report s)
           = PyFloat (round_to_double (spec_round1 (of_nat (length (interruptions s)) * 23 / 60)))"
    if "length (interruptions s) mod 6 \<noteq> 3"
  proof (cases "n = 0")
    case True
    then show ?thesis unfolding h nn by (simp add: hours_lost_zero [simplified] spec_round1_zero round_to_double_0)
  next
    case False
    then have pos: "0 < n" using n0 by simp
    have "n mod 6 \<noteq> 3" using that nm by linarith
    then show ?thesis
      unfolding h nn using hours_round_nontie [OF pos b]
      by (simp add: int_truediv_def py_round1_def spec_round1_def)
  qed
  have c3: "hours_lost (generate_daily_report s)
           = PyFloat (round_to_double (of_int \<lfloor>10 * (of_nat (length (interruptions s)) * 23 / 60 :: rat)\<rfloor> / 10))
       \<or> hours_lost (generate_daily_report s)
           = PyFloat (round_to_double (of_int (\<lfloor>10 * (of_nat (length (interruptions s)) * 23 / 60 :: rat)\<rfloor> + 1) / 10))"
    if "length (interruptions s) mod 6 = 3"
  proof -
    have m: "n mod 6 = 3" using that nm by linarith
    then have pos: "0 < n" using n0 by (cases "n = 0") simp_all
    show ?thesis
      unfolding h nn using hours_round_tie [OF pos b m]
      by (auto simp: int_truediv_def py_round1_def)
  qed
  have c4: "py_value (focus_score (generate_daily_report s))
         = round_to_double (spec_round1 (max 1 (min 10 (10 - of_nat (length (interruptions s)) / 3))))"
    unfolding f nn using focus_score_value [OF n0] .
  have c5: "total_interruptions (generate_daily_report s) = 0
         \<and> hours_lost (generate_daily_report s) = PyFloat 0
         \<and> focus_score (generate_daily_report s) = PyInt 10
         \<and> interruptions_by_type (generate_daily_report s) = []"
    if "interruptions s = []"
  proof -
    have z: "n = 0" using that by (simp add: n_def)
    show ?thesis
      using that unfolding h f z
      by (simp add: generate_daily_report_def Let_def hours_lost_zero [simplified] focus_score_zero)
  qed
  show ?thesis using c1 c2 c3 c4 c5 by blast
qed

theorem report_statistics_witness:
  "23 * int (length (interruptions \<lparr>interruptions = replicate 16
        \<lparr>r_transcript = ''now'', r_timestamp = ''t'', r_type = ''urgent'', time_lost_minutes = 23\<rparr>,
        focus_mode_active = False, focus_start_time = None\<rparr>)) < 2 ^ 53
   \<and> total_interruptions (generate_daily_report \<lparr>interruptions = replicate 16
        \<lparr>r_transcript = ''now'', r_timestamp = ''t'', r_type = ''urgent'', time_lost_minutes = 23\<rparr>,
        focus_mode_active = False, focus_start_time = None\<rparr>) = 16
   \<and> hours_lost (generate_daily_report \<lparr>interruptions = replicate 16
        \<lparr>r_transcript = ''now'', r_timestamp = ''t'', r_type = ''urgent'', time_lost_minutes = 23\<rparr>,
        focus_mode_active = False, focus_start_time = None\<rparr>) = PyFloat (round_to_double (61 / 10))
   \<and> py_value (focus_score (generate_daily_report \<lparr>interruptions = replicate 16
        \<lparr>r_transcript = ''now'', r_timestamp = ''t'', r_type = ''urgent'', time_lost_minutes = 23\<rparr>,
        focus_mode_active = False, focus_start_time = None\<rparr>)) = round_to_double (47 / 10)
   \<and> hours_lost (generate_daily_report \<lparr>interruptions = replicate 3
        \<lparr>r_transcript = ''now'', r_timestamp = ''t'', r_type = ''urgent'', time_lost_minutes = 23\<rparr>,
        focus_mode_active = False, focus_start_time = None\<rparr>)
       \<in> {PyFloat (round_to_double (11 / 10)), PyFloat (round_to_double (12 / 10))}
   \<and> total_interruptions (generate_daily_report initial_state) = 0
   \<and> hours_lost (generate_daily_report initial_state) = PyFloat 0
   \<and> focus_score (generate_daily_report initial_state) = PyInt 10
   \<and> interruptions_by_type (generate_daily_report initial_state) = []"
proof -
  define s16 where "s16 = \<lparr>interruptions = replicate 16
        \<lparr>r_transcript = ''now'', r_timestamp = ''t'', r_type = ''urgent'', time_lost_minutes = 23\<rparr>,
        focus_mode_active = False, focus_start_time = None\<rparr>"
  define s3 where "s3 = \<lparr>interruptions = replicate 3
        \<lparr>r_transcript = ''now'', r_timestamp = ''t'', r_type = ''urgent'', time_lost_minutes = 23\<rparr>,
        focus_mode_active = False, focus_start_time = None\<rparr>"
  have len: "length (interruptions s16) = 16" by (simp add: s16_def)
  have b: "23 * int (length (interruptions s16)) < 2 ^ 53" by (simp add: len)
  have m: "length (interruptions s16) mod 6 \<noteq> 3" by (simp add: len)
  have len3: "length (interruptions s3) = 3" by (simp add: s3_def)
  have b3: "23 * int (length (interruptions s3)) < 2 ^ 53" by (simp add: len3)
  have m3: "length (interruptions s3) mod 6 = 3" by (simp add: len3)
  have h: "spec_round1 (92 / 15) = 61 / 10" by code_simp
  have f: "spec_round1 (14 / 3) = 47 / 10" by code_simp
  have e: "interruptions initial_state = []" by (simp add: initial_state_def)
  have b0: "23 * int (length (interruptions initial_state)) < 2 ^ 53" by (simp add: e)
  have fl: "\<lfloor>23 / 2 :: rat\<rfloor> = 11" by (rule floor_unique) simp_all
  have t3: "hours_lost (generate_daily_report s3)
       \<in> {PyFloat (round_to_double (11 / 10)), PyFloat (round_to_double (12 / 10))}"
    using report_statistics [OF b3] m3 by (auto simp: len3 fl)
  have "23 * int (length (interruptions s16)) < 2 ^ 53
   \<and> total_interruptions (generate_daily_report s16) = 16
   \<and> hours_lost (generate_daily_report s16) = PyFloat (round_to_double (61 / 10))
   \<and> py_value (focus_score (generate_daily_report s16)) = round_to_double (47 / 10)
   \<and> hours_lost (generate_daily_report s3)
       \<in> {PyFloat (round_to_double (11 / 10)), PyFloat (round_to_double (12 / 10))}
   \<and> total_interruptions (generate_daily_report initial_state) = 0
   \<and> hours_lost (generate_daily_report initial_state) = PyFloat 0
   \<and> focus_score (generate_daily_report initial_state) = PyInt 10
   \<and> interruptions_by_type (generate_daily_report initial_state) = []"
    using report_statistics [OF b] report_statistics [OF b0] b m e t3
    by (simp add: len h f spec_round1_zero round_to_double_0)
  then show ?thesis unfolding s16_def s3_def .
qed

subsection \<open>The tip\<close>

text \<open>
  C4. The report's tip is \<^verbatim>\<open>get_tip\<close> of the number of records; for every count it is
  the high-interruption message exactly when the count exceeds 15, the positive message
  exactly when the count is below 5, and the moderate message exactly for counts from 5 to
  15. The counts 5 and 15 give the moderate message, 4 the positive one, 16 the high one.
\<close>

theorem tip_bands:
  "tip (generate_daily_report s) = get_tip (int (length (interruptions s)))
   \<and> (get_tip n = ''High interruption day! Try blocking focus time tomorrow.'' \<longleftrightarrow> 15 < n)
   \<and> (get_tip n = ''Great focus day! Keep it up.'' \<longleftrightarrow> n < 5)
   \<and> (get_tip n = ''Moderate interruptions. Use focus mode for deep work.'' \<longleftrightarrow> 5 \<le> n \<and> n \<le> 15)
   \<and> get_tip 4 = ''Great focus day! Keep it up.''
   \<and> get_tip 5 = ''Moderate interruptions. Use focus mode for deep work.''
   \<and> get_tip 15 = ''Moderate interruptions. Use focus mode for deep work.''
   \<and> get_tip 16 = ''High interruption day! Try blocking focus time tomorrow.''"
  by (simp add: generate_daily_report_def Let_def get_tip_def)

subsection \<open>The interruption log and the counts of the report\<close>

lemma sum_dict_set:
  "sum_list (map snd (dict_set d key (dict_get d key 0 + 1))) = sum_list (map snd d) + 1"
  by (induction d) auto

lemma sum_count_by_type:
  "sum_list (map snd (count_by_type d rs)) = sum_list (map snd d) + int (length rs)"
  by (induction rs arbitrary: d) (simp_all add: Let_def sum_dict_set)

lemma dict_get_set:
  "dict_get (dict_set d key w) key' dflt = (if key' = key then w else dict_get d key' dflt)"
  by (induction d) auto

lemma dict_get_count_by_type:
  "dict_get (count_by_type d rs) ty 0 = dict_get d ty 0 + int (length (filter (\<lambda>r. r_type r = ty) rs))"
  by (induction rs arbitrary: d) (simp_all add: Let_def dict_get_set)

lemma scan_patterns_type: "scan_patterns text ps = Some ty \<Longrightarrow> ty \<in> fst ` set ps"
  by (induction ps) (auto split: if_splits)

lemma detect_interruption_type:
  "detect_interruption transcript = Some ty \<Longrightarrow>
     ty \<in> {''casual_chat'', ''work_request'', ''meeting'', ''urgent''}"
  using scan_patterns_type [of "lower transcript" patterns ty]
  by (simp add: detect_interruption_def patterns_def)

lemma apply_op_log:
  "interruptions (apply_op operation s) =
     interruptions s @
       (if appends_record operation
        then (case operation of
                ProcessEvent transcript timestamp now \<Rightarrow>
                  [\<lparr>r_transcript = transcript, r_timestamp = timestamp,
                    r_type = the (detect_interruption transcript), time_lost_minutes = 23\<rparr>]
              | GenerateReport \<Rightarrow> [])
        else [])"
  by (cases operation)
     (auto simp: process_conversation_def activate_focus_mode_def save_interruption_def
           split: option.splits)

lemma apply_op_invariant:
  assumes "\<forall>r\<in>set (interruptions s). r_type r \<in> {''casual_chat'', ''work_request'', ''meeting'', ''urgent''}
              \<and> time_lost_minutes r = 23"
  shows "\<forall>r\<in>set (interruptions (apply_op operation s)).
           r_type r \<in> {''casual_chat'', ''work_request'', ''meeting'', ''urgent''}
              \<and> time_lost_minutes r = 23"
proof (cases operation)
  case (ProcessEvent transcript timestamp now)
  show ?thesis
  proof (cases "appends_record operation")
    case True
    then obtain ty where ty: "detect_interruption transcript = Some ty"
      using ProcessEvent by auto
    have "ty \<in> {''casual_chat'', ''work_request'', ''meeting'', ''urgent''}"
      using detect_interruption_type [OF ty] .
    then show ?thesis
      using assms True ty ProcessEvent unfolding apply_op_log by auto
  next
    case False
    then show ?thesis using assms unfolding apply_op_log by simp
  qed
next
  case GenerateReport
  then show ?thesis using assms by simp
qed

lemma run_ops_invariant:
  assumes "\<forall>r\<in>set (interruptions s). r_type r \<in> {''casual_chat'', ''work_request'', ''meeting'', ''urgent''}
              \<and> time_lost_minutes r = 23"
  shows "\<forall>r\<in>set (interruptions (run_ops ops s)).
           r_type r \<in> {''casual_chat'', ''work_request'', ''meeting'', ''urgent''}
              \<and> time_lost_minutes r = 23"
  using assms
proof (induction ops arbitrary: s)
  case Nil
  then show ?case by simp
next
  case (Cons operation ops)
  show ?case
    unfolding run_ops.simps
    by (rule Cons.IH) (rule apply_op_invariant [OF Cons.prems])
qed

lemma run_ops_length:
  "length (interruptions (run_ops ops s)) = length (interruptions s) + length (filter appends_record ops)"
proof (induction ops arbitrary: s)
  case Nil
  then show ?case by simp
next
  case (Cons operation ops)
  have "length (interruptions (apply_op operation s)) =
          length (interruptions s) + (if appends_record operation then 1 else 0)"
    unfolding apply_op_log by (cases operation) simp_all
  then show ?case unfolding run_ops.simps Cons.IH by simp
qed

text \<open>
  C5. After any sequence of core operations from the initial state, every stored record
  has one of the four types and \<^verbatim>\<open>time_lost_minutes\<close> 23, and the report generated
  then has \<^verbatim>\<open>total_interruptions\<close> equal to the number of appended records, to the
  length of the log and to the sum of the values of \<^verbatim>\<open>interruptions_by_type\<close>; the
  count stored for a type is the number of records of that type.
\<close>

theorem log_and_report_invariant:
  "(\<forall>r\<in>set (interruptions (run_ops ops initial_state)).
       r_type r \<in> {''casual_chat'', ''work_request'', ''meeting'', ''urgent''}
       \<and> time_lost_minutes r = 23)
   \<and> total_interruptions (generate_daily_report (run_ops ops initial_state))
        = int (length (filter appends_record ops))
   \<and> sum_list (map snd (interruptions_by_type (generate_daily_report (run_ops ops initial_state))))
        = total_interruptions (generate_daily_report (run_ops ops initial_state))
   \<and> int (length (interruptions (run_ops ops initial_state)))
        = total_interruptions (generate_daily_report (run_ops ops initial_state))
   \<and> dict_get (interruptions_by_type (generate_daily_report (run_ops ops initial_state))) ty 0
        = int (length (filter (\<lambda>r. r_type r = ty) (interruptions (run_ops ops initial_state))))"
proof -
  have init: "\<forall>r\<in>set (interruptions initial_state).
      r_type r \<in> {''casual_chat'', ''work_request'', ''meeting'', ''urgent''} \<and> time_lost_minutes r = 23"
    by (simp add: initial_state_def)
  have len: "length (interruptions (run_ops ops initial_state)) = length (filter appends_record ops)"
    using run_ops_length [of ops initial_state] by (simp add: initial_state_def)
  show ?thesis
    using run_ops_invariant [OF init, of ops] len
    by (simp add: generate_daily_report_def Let_def sum_count_by_type dict_get_count_by_type)
qed

theorem log_and_report_invariant_witness:
  "interruptions (run_ops [ProcessEvent ''coffee?'' ''t1'' ''n1'', ProcessEvent ''deep work'' ''t2'' ''n2'',
       ProcessEvent ''Urgent call'' ''t3'' ''n3'', GenerateReport, ProcessEvent ''fine'' ''t4'' ''n4'',
       ProcessEvent ''lunch?'' ''t5'' ''n5''] initial_state)
     = [\<lparr>r_transcript = ''coffee?'', r_timestamp = ''t1'', r_type = ''casual_chat'', time_lost_minutes = 23\<rparr>,
        \<lparr>r_transcript = ''Urgent call'', r_timestamp = ''t3'', r_type = ''meeting'', time_lost_minutes = 23\<rparr>,
        \<lparr>r_transcript = ''lunch?'', r_timestamp = ''t5'', r_type = ''casual_chat'', time_lost_minutes = 23\<rparr>]
   \<and> total_interruptions (generate_daily_report (run_ops [ProcessEvent ''coffee?'' ''t1'' ''n1'',
       ProcessEvent ''deep work'' ''t2'' ''n2'', ProcessEvent ''Urgent call'' ''t3'' ''n3'', GenerateReport,
       ProcessEvent ''fine'' ''t4'' ''n4'', ProcessEvent ''lunch?'' ''t5'' ''n5''] initial_state)) = 3
   \<and> sum_list (map snd (interruptions_by_type (generate_daily_report (run_ops [ProcessEvent ''coffee?'' ''t1'' ''n1'',
       ProcessEvent ''deep work'' ''t2'' ''n2'', ProcessEvent ''Urgent call'' ''t3'' ''n3'', GenerateReport,
       ProcessEvent ''fine'' ''t4'' ''n4'', ProcessEvent ''lunch?'' ''t5'' ''n5''] initial_state)))) = 3"
proof -
  have run: "interruptions (run_ops [ProcessEvent ''coffee?'' ''t1'' ''n1'', ProcessEvent ''deep work'' ''t2'' ''n2'',
       ProcessEvent ''Urgent call'' ''t3'' ''n3'', GenerateReport, ProcessEvent ''fine'' ''t4'' ''n4'',
       ProcessEvent ''lunch?'' ''t5'' ''n5''] initial_state)
     = [\<lparr>r_transcript = ''coffee?'', r_timestamp = ''t1'', r_type = ''casual_chat'', time_lost_minutes = 23\<rparr>,
        \<lparr>r_transcript = ''Urgent call'', r_timestamp = ''t3'', r_type = ''meeting'', time_lost_minutes = 23\<rparr>,
        \<lparr>r_transcript = ''lunch?'', r_timestamp = ''t5'', r_type = ''casual_chat'', time_lost_minutes = 23\<rparr>]"
    by code_simp
  have cnt: "length (filter appends_record [ProcessEvent ''coffee?'' ''t1'' ''n1'', ProcessEvent ''deep work'' ''t2'' ''n2'',
       ProcessEvent ''Urgent call'' ''t3'' ''n3'', GenerateReport, ProcessEvent ''fine'' ''t4'' ''n4'',
       ProcessEvent ''lunch?'' ''t5'' ''n5'']) = 3"
    by code_simp
  show ?thesis
    using log_and_report_invariant [of "[ProcessEvent ''coffee?'' ''t1'' ''n1'', ProcessEvent ''deep work'' ''t2'' ''n2'',
       ProcessEvent ''Urgent call'' ''t3'' ''n3'', GenerateReport, ProcessEvent ''fine'' ''t4'' ''n4'',
       ProcessEvent ''lunch?'' ''t5'' ''n5'']"] run cnt
    by simp
qed

subsection \<open>The report is a function of the log\<close>

text \<open>
  C9. The report is determined by the interruption records alone: two states with the same
  log give the same report, whatever their focus fields, and generating a report leaves
  the state as it was, so a second generation returns the identical report.
\<close>

theorem report_depends_on_log_only:
  "(interruptions s' = interruptions s \<longrightarrow> generate_daily_report s' = generate_daily_report s)
   \<and> generate_daily_report (apply_op GenerateReport s) = generate_daily_report s
   \<and> apply_op GenerateReport s = s"
  by (simp add: generate_daily_report_def)

theorem report_depends_on_log_only_witness:
  "interruptions (activate_focus_mode ''n1'' initial_state) = interruptions initial_state
   \<and> activate_focus_mode ''n1'' initial_state \<noteq> initial_state
   \<and> generate_daily_report (activate_focus_mode ''n1'' initial_state) = generate_daily_report initial_state"
proof -
  have a: "interruptions (activate_focus_mode ''n1'' initial_state) = interruptions initial_state"
    by (simp add: activate_focus_mode_def)
  have b: "activate_focus_mode ''n1'' initial_state \<noteq> initial_state"
    by (simp add: activate_focus_mode_def initial_state_def)
  show ?thesis
    using report_depends_on_log_only [of "activate_focus_mode ''n1'' initial_state" initial_state] a b
    by blast
qed

end
